theory Spec2Isabelle
  imports Complex_Main "HOL-Library.Char_ord" "HOL-Library.List_Lexorder" "HOL-Library.Multiset"
begin

section \<open>Numbers, vectors and matrices of the search engine\<close>

text \<open>
  The engine of \<^verbatim>\<open>search_engine.py\<close> computes on numpy arrays of 64-bit floats.
  A float is modelled as an exact real number or one of the three special values of
  IEEE-754 arithmetic. The special values matter: numpy does not raise on a division
  by zero, it stores \<open>inf\<close> or \<open>nan\<close> in the array and goes on. Rounding, overflow of
  finite results and the sign of zero are not modelled: finite arithmetic is exact.
\<close>

datatype npfloat = Fin real | PInf | NInf | NaN

fun fadd :: "npfloat \<Rightarrow> npfloat \<Rightarrow> npfloat" where
  "fadd NaN _ = NaN"
| "fadd _ NaN = NaN"
| "fadd (Fin x) (Fin y) = Fin (x + y)"
| "fadd PInf NInf = NaN"
| "fadd NInf PInf = NaN"
| "fadd PInf _ = PInf"
| "fadd _ PInf = PInf"
| "fadd NInf _ = NInf"
| "fadd _ NInf = NInf"

fun fsign :: "npfloat \<Rightarrow> int" where
  "fsign (Fin x) = (if x < 0 then - 1 else if x = 0 then 0 else 1)"
| "fsign PInf = 1"
| "fsign NInf = - 1"
| "fsign NaN = 0"

definition inf_of_sign :: "int \<Rightarrow> npfloat" where
  "inf_of_sign s = (if s = 0 then NaN else if 0 < s then PInf else NInf)"

fun fmul :: "npfloat \<Rightarrow> npfloat \<Rightarrow> npfloat" where
  "fmul NaN _ = NaN"
| "fmul _ NaN = NaN"
| "fmul (Fin x) (Fin y) = Fin (x * y)"
| "fmul a b = inf_of_sign (fsign a * fsign b)"

text \<open>
  Division: a finite non-zero number over zero is an infinity, zero over zero and
  infinity over infinity are \<open>nan\<close>. Every divisor of the program is a Euclidean norm
  or a product of norms, so a zero divisor is \<open>+0\<close>.
\<close>

fun fdiv :: "npfloat \<Rightarrow> npfloat \<Rightarrow> npfloat" where
  "fdiv NaN _ = NaN"
| "fdiv _ NaN = NaN"
| "fdiv (Fin x) (Fin y) = (if y = 0 then inf_of_sign (fsign (Fin x)) else Fin (x / y))"
| "fdiv (Fin x) _ = Fin 0"
| "fdiv a (Fin y) = inf_of_sign (fsign a * (if y < 0 then - 1 else 1))"
| "fdiv _ _ = NaN"

fun fsqrt :: "npfloat \<Rightarrow> npfloat" where
  "fsqrt (Fin x) = (if x < 0 then NaN else Fin (sqrt x))"
| "fsqrt PInf = PInf"
| "fsqrt _ = NaN"

text \<open>numpy's \<open>arccos\<close> returns \<open>nan\<close> (with a warning) outside \<open>[-1, 1]\<close>.\<close>

fun farccos :: "npfloat \<Rightarrow> npfloat" where
  "farccos (Fin x) = (if - 1 \<le> x \<and> x \<le> 1 then Fin (arccos x) else NaN)"
| "farccos _ = NaN"

text \<open>The comparison \<open><\<close> of floats: every comparison with \<open>nan\<close> is false.\<close>

fun fless :: "npfloat \<Rightarrow> npfloat \<Rightarrow> bool" where
  "fless NaN _ = False"
| "fless _ NaN = False"
| "fless (Fin x) (Fin y) = (x < y)"
| "fless NInf NInf = False"
| "fless NInf _ = True"
| "fless _ NInf = False"
| "fless PInf _ = False"
| "fless _ PInf = True"

type_synonym vector = "npfloat list"

text \<open>A two-dimensional array is the list of its rows, all of the same length.\<close>

type_synonym matrix = "npfloat list list"

datatype error =
    ValueError | IndexError | KeyError | LinAlgError
  | MalformedCorpusError | EmptyDocumentError string | InvalidRankError
  | DegenerateMatrixError | SingularModelError | EmptyQueryError

text \<open>
  The first four errors are the exceptions that Python and numpy raise in the code
  below. The other six are the error kinds of the specification; the source defines
  and raises none of them.
\<close>

definition zeros :: "nat \<Rightarrow> vector" where
  "zeros n = replicate n (Fin 0)"

definition fsum :: "vector \<Rightarrow> npfloat" where
  "fsum v = foldl fadd (Fin 0) v"

text \<open>\<open>dot\<close> of two one-dimensional arrays; numpy raises \<open>ValueError\<close> when the
  lengths differ.\<close>

definition dot :: "vector \<Rightarrow> vector \<Rightarrow> error + npfloat" where
  "dot a b = (if length a = length b then Inr (fsum (map2 fmul a b)) else Inl ValueError)"

text \<open>\<open>dot\<close> of a two-dimensional array and a one-dimensional one.\<close>

definition matvec :: "matrix \<Rightarrow> vector \<Rightarrow> error + vector" where
  "matvec M v =
     (if list_all (\<lambda>r. length r = length v) M
      then Inr (map (\<lambda>r. fsum (map2 fmul r v)) M) else Inl ValueError)"

text \<open>\<open>numpy.linalg.norm\<close> of a one-dimensional array: the root of the sum of squares.\<close>

definition norm_np :: "vector \<Rightarrow> npfloat" where
  "norm_np v = fsqrt (fsum (map (\<lambda>x. fmul x x) v))"

text \<open>\<open>M[:, i]\<close>: numpy raises \<open>IndexError\<close> when the matrix has no column \<open>i\<close>.\<close>

definition column :: "matrix \<Rightarrow> nat \<Rightarrow> error + vector" where
  "column M i =
     (if list_all (\<lambda>r. i < length r) M then Inr (map (\<lambda>r. r ! i) M) else Inl IndexError)"

definition ncols :: "matrix \<Rightarrow> nat" where
  "ncols M = (case M of [] \<Rightarrow> 0 | r # _ \<Rightarrow> length r)"

text \<open>\<open>M.T\<close>\<close>

definition transposeM :: "matrix \<Rightarrow> matrix" where
  "transposeM M = map (\<lambda>j. map (\<lambda>r. r ! j) M) [0..<ncols M]"

text \<open>\<open>xs.index(x)\<close>: the first position of \<open>x\<close>; \<open>None\<close> stands for Python's
  \<open>ValueError\<close>.\<close>

fun index_of :: "'a \<Rightarrow> 'a list \<Rightarrow> nat option" where
  "index_of x [] = None"
| "index_of x (y # ys) = (if x = y then Some 0 else map_option Suc (index_of x ys))"

text \<open>The slice \<open>xs[:n]\<close> for a Python integer \<open>n\<close>: a negative \<open>n\<close> counts from the
  end.\<close>

definition py_slice_to :: "int \<Rightarrow> 'a list \<Rightarrow> 'a list" where
  "py_slice_to n xs =
     (if 0 \<le> n then take (nat n) xs else take (length xs - nat (- n)) xs)"

text \<open>
  \<open>xs.sort(key=f)\<close> with float keys: a stable sort that compares keys with \<open><\<close>. It is
  modelled by stable insertion. When no key is \<open>nan\<close> the keys are totally ordered and
  every stable sort returns this list; on keys that \<open><\<close> does not order, the result of
  CPython's sort depends on its merge strategy, and the theorems about the order of
  a ranking assume that no distance is \<open>nan\<close>.
\<close>

fun insort_by :: "('a \<Rightarrow> npfloat) \<Rightarrow> 'a \<Rightarrow> 'a list \<Rightarrow> 'a list" where
  "insort_by key x [] = [x]"
| "insort_by key x (y # ys) =
     (if fless (key x) (key y) then x # y # ys else y # insort_by key x ys)"

definition py_sort_key :: "('a \<Rightarrow> npfloat) \<Rightarrow> 'a list \<Rightarrow> 'a list" where
  "py_sort_key key xs = foldl (\<lambda>acc x. insort_by key x acc) [] xs"

section \<open>The engine\<close>

text \<open>
  The corpus \<open>data\<close> is a Python dict from a url to a list of (tag, count) pairs,
  modelled as an association list; the keys of a dict are distinct. Counts are Python
  integers.
\<close>

type_synonym corpus = "(string \<times> (string \<times> int) list) list"

record engine =
  urls :: "string list"
  tags :: "string list"
  no_tags :: nat
  U :: matrix
  S :: matrix
  Vt :: matrix
  Ut :: matrix
  Si :: matrix
  no_svd_components :: int
  no_results :: int

text \<open>\<open>cosDist\<close>; \<open>cos_arg\<close> is the number that the code hands to \<open>arccos\<close>.\<close>

definition cos_arg :: "vector \<Rightarrow> vector \<Rightarrow> error + npfloat" where
  "cos_arg p q =
     (case dot q p of Inl err \<Rightarrow> Inl err
      | Inr d \<Rightarrow> Inr (fdiv d (fmul (norm_np q) (norm_np p))))"

definition cosDist :: "vector \<Rightarrow> vector \<Rightarrow> error + npfloat" where
  "cosDist p q = (case cos_arg p q of Inl err \<Rightarrow> Inl err | Inr c \<Rightarrow> Inr (farccos c))"

text \<open>
  \<open>build_query_vector\<close>: the bare \<open>except: pass\<close> swallows the \<open>ValueError\<close> of
  \<open>index\<close> for an unknown key word (and would swallow an \<open>IndexError\<close> of the store).
\<close>

definition build_query_vector :: "engine \<Rightarrow> string list \<Rightarrow> vector" where
  "build_query_vector e key_words =
     fold (\<lambda>key q. case index_of key (tags e) of
                      None \<Rightarrow> q
                    | Some i \<Rightarrow> if i < length q then q[i := Fin 1] else q)
          key_words (zeros (no_tags e))"

text \<open>\<open>project\<close>: \<open>qhat = dot(Si, dot(Ut, q)); qhat /= norm(qhat)\<close>.\<close>

definition project :: "engine \<Rightarrow> vector \<Rightarrow> error + vector" where
  "project e q =
     (case matvec (Ut e) q of Inl err \<Rightarrow> Inl err
      | Inr v \<Rightarrow>
          (case matvec (Si e) v of Inl err \<Rightarrow> Inl err
           | Inr qhat \<Rightarrow> Inr (map (\<lambda>x. fdiv x (norm_np qhat)) qhat)))"

text \<open>The distance of document \<open>i\<close>: \<open>cosDist(self.Vt[:,i], qhat)\<close>.\<close>

definition doc_dist :: "engine \<Rightarrow> vector \<Rightarrow> nat \<Rightarrow> error + npfloat" where
  "doc_dist e qhat i =
     (case column (Vt e) i of Inl err \<Rightarrow> Inl err | Inr p \<Rightarrow> cosDist p qhat)"

text \<open>The loop of \<open>nearest_urls\<close>: append the pair of document \<open>i\<close>, then sort the
  whole list again.\<close>

fun cos_loop ::
  "engine \<Rightarrow> vector \<Rightarrow> nat list \<Rightarrow> (nat \<times> npfloat) list \<Rightarrow> error + (nat \<times> npfloat) list"
where
  "cos_loop e qhat [] acc = Inr acc"
| "cos_loop e qhat (i # is) acc =
     (case doc_dist e qhat i of Inl err \<Rightarrow> Inl err
      | Inr d \<Rightarrow> cos_loop e qhat is (py_sort_key snd (acc @ [(i, d)])))"

definition cos_distances :: "engine \<Rightarrow> vector \<Rightarrow> error + (nat \<times> npfloat) list" where
  "cos_distances e qhat = cos_loop e qhat [0..<length (urls e)] []"

text \<open>\<open>if not no_results: no_results = self.no_results\<close>: \<open>None\<close> and \<open>0\<close> are the
  falsy values of an optional integer.\<close>

definition result_count :: "engine \<Rightarrow> int option \<Rightarrow> int" where
  "result_count e ov =
     (case ov of None \<Rightarrow> no_results e
      | Some n \<Rightarrow> if n = 0 then no_results e else n)"

definition nearest_urls :: "engine \<Rightarrow> vector \<Rightarrow> int option \<Rightarrow> error + string list" where
  "nearest_urls e qhat ov =
     (case cos_distances e qhat of Inl err \<Rightarrow> Inl err
      | Inr cd \<Rightarrow> Inr (map (\<lambda>pair. urls e ! fst pair) (py_slice_to (result_count e ov) cd)))"

definition search :: "engine \<Rightarrow> string list \<Rightarrow> error + string list" where
  "search e key_words =
     (case project e (build_query_vector e key_words) of Inl err \<Rightarrow> Inl err
      | Inr qhat \<Rightarrow> nearest_urls e qhat None)"

section \<open>Building the index\<close>

text \<open>
  \<open>extractData\<close>: the sorted keys of the dict and the sorted set of all tags. A Python
  set holds each tag once, and the order in which it is listed does not survive the
  sort.
\<close>

definition extractData :: "corpus \<Rightarrow> string list \<times> string list" where
  "extractData data =
     (sort (map fst data),
      sort (remdups (concat (map (\<lambda>tagfreq. map fst tagfreq) (map snd data)))))"

text \<open>\<open>A[row, column] = count\<close>; numpy raises \<open>IndexError\<close> outside the array.\<close>

definition set_cell :: "matrix \<Rightarrow> nat \<Rightarrow> nat \<Rightarrow> npfloat \<Rightarrow> error + matrix" where
  "set_cell A row col v =
     (if row < length A \<and> col < length (A ! row)
      then Inr (A[row := (A ! row)[col := v]]) else Inl IndexError)"

text \<open>The inner loop of \<open>generateCounts\<close> over the pairs of one document.\<close>

fun fill_column :: "string list \<Rightarrow> nat \<Rightarrow> (string \<times> int) list \<Rightarrow> matrix \<Rightarrow> error + matrix" where
  "fill_column tag_list col [] A = Inr A"
| "fill_column tag_list col ((tag, cnt) # rest) A =
     (case index_of tag tag_list of None \<Rightarrow> Inl ValueError
      | Some row \<Rightarrow>
          (case set_cell A row col (Fin (of_int cnt)) of Inl err \<Rightarrow> Inl err
           | Inr A' \<Rightarrow> fill_column tag_list col rest A'))"

text \<open>The outer loop over the urls; \<open>data[url]\<close> raises \<open>KeyError\<close> for a missing
  key.\<close>

fun fill_columns ::
  "corpus \<Rightarrow> string list \<Rightarrow> string list \<Rightarrow> nat \<Rightarrow> matrix \<Rightarrow> error + matrix"
where
  "fill_columns data tag_list [] col A = Inr A"
| "fill_columns data tag_list (url # rest) col A =
     (case map_of data url of None \<Rightarrow> Inl KeyError
      | Some tagfreq \<Rightarrow>
          (case fill_column tag_list col tagfreq A of Inl err \<Rightarrow> Inl err
           | Inr A' \<Rightarrow> fill_columns data tag_list rest (col + 1) A'))"

definition generateCounts :: "corpus \<Rightarrow> string list \<Rightarrow> string list \<Rightarrow> error + matrix" where
  "generateCounts data url_list tag_list =
     fill_columns data tag_list url_list 0
       (replicate (length tag_list) (zeros (length url_list)))"

text \<open>
  \<open>normalize_columns\<close> divides each column by its norm, in place; the model returns
  the new array. The division raises nothing: a zero norm gives \<open>nan\<close> entries.
\<close>

definition normalize_column :: "nat \<Rightarrow> matrix \<Rightarrow> matrix" where
  "normalize_column col arr =
     (let nrm = norm_np (map (\<lambda>r. r ! col) arr)
      in map (\<lambda>r. r[col := fdiv (r ! col) nrm]) arr)"

definition normalize_columns :: "matrix \<Rightarrow> matrix" where
  "normalize_columns arr = fold normalize_column [0..<ncols arr] arr"

text \<open>
  \<open>numpy.resize(s, [m, 1])\<close> repeats the entries of \<open>s\<close> to fill \<open>m\<close> places (zeros
  when \<open>s\<close> is empty); the product with \<open>eye(m, n)\<close> puts them on the diagonal of an
  \<open>m\<close> by \<open>n\<close> array.
\<close>

definition resize_col :: "vector \<Rightarrow> nat \<Rightarrow> vector" where
  "resize_col s m = (if s = [] then zeros m else map (\<lambda>i. s ! (i mod length s)) [0..<m])"

definition diag_matrix :: "vector \<Rightarrow> nat \<Rightarrow> nat \<Rightarrow> matrix" where
  "diag_matrix s m n =
     map (\<lambda>i. map (\<lambda>j. fmul (resize_col s m ! i) (Fin (if i = j then 1 else 0))) [0..<n]) [0..<m]"

text \<open>
  \<open>truncatedSVD\<close>. The decomposition \<open>svd\<close> is numpy's and is a parameter of the model:
  it returns the factors \<open>U\<close>, the vector of singular values and \<open>Vt\<close>, or raises
  \<open>LinAlgError\<close>. The target rank \<open>k\<close> is a Python integer and is used in three slices.
\<close>

definition truncatedSVD ::
  "(matrix \<Rightarrow> error + matrix \<times> vector \<times> matrix) \<Rightarrow> matrix \<Rightarrow> int
     \<Rightarrow> error + matrix \<times> matrix \<times> matrix"
where
  "truncatedSVD svd A k =
     (case svd A of Inl err \<Rightarrow> Inl err
      | Inr (U0, s, Vt0) \<Rightarrow>
          (let m = length A; n = ncols A; S0 = diag_matrix s m n
           in Inr (map (py_slice_to k) U0,
                   map (py_slice_to k) (py_slice_to k S0),
                   py_slice_to k Vt0)))"

text \<open>The constructor of \<open>SearchEngine\<close>, after \<open>loadData\<close>; \<open>inverse_fn\<close> is
  numpy's \<open>inv\<close>, the matrix inverse, and a parameter as well.\<close>

definition SearchEngine ::
  "(matrix \<Rightarrow> error + matrix \<times> vector \<times> matrix) \<Rightarrow> (matrix \<Rightarrow> error + matrix)
     \<Rightarrow> corpus \<Rightarrow> int \<Rightarrow> int \<Rightarrow> error + engine"
where
  "SearchEngine svd inverse_fn data no_svd_comp no_res =
     (let (url_list, tag_list) = extractData data
      in case generateCounts data url_list tag_list of Inl err \<Rightarrow> Inl err
         | Inr A \<Rightarrow>
             (case truncatedSVD svd (normalize_columns A) no_svd_comp of Inl err \<Rightarrow> Inl err
              | Inr (Uk, Sk, Vtk) \<Rightarrow>
                  (case inverse_fn Sk of Inl err \<Rightarrow> Inl err
                   | Inr Sinv \<Rightarrow>
                       Inr \<lparr>urls = url_list, tags = tag_list, no_tags = length tag_list,
                            U = Uk, S = Sk, Vt = Vtk, Ut = transposeM Uk, Si = Sinv,
                            no_svd_components = no_svd_comp, no_results = no_res\<rparr>)))"

section \<open>Predicates of the properties\<close>

text \<open>
  The comparison \<open>==\<close> of floats (\<open>nan\<close> is not equal to itself), and the order of a
  ranking, on pairs of a document index and its distance: the closer document first,
  and of two documents at the same distance the one with the smaller url.
\<close>

definition feq :: "npfloat \<Rightarrow> npfloat \<Rightarrow> bool" where
  "feq x y = (x \<noteq> NaN \<and> x = y)"

definition ranked_before :: "engine \<Rightarrow> nat \<times> npfloat \<Rightarrow> nat \<times> npfloat \<Rightarrow> bool" where
  "ranked_before e a b =
     (fless (snd a) (snd b) \<or> (feq (snd a) (snd b) \<and> urls e ! fst a < urls e ! fst b))"

text \<open>The same order with the document index in place of the url.\<close>

definition idx_before :: "nat \<times> npfloat \<Rightarrow> nat \<times> npfloat \<Rightarrow> bool" where
  "idx_before a b = (fless (snd a) (snd b) \<or> (snd a = snd b \<and> fst a < fst b))"



text \<open>A vector of finite numbers.\<close>

definition finite_vec :: "vector \<Rightarrow> bool" where
  "finite_vec v = list_all (\<lambda>x. case x of Fin _ \<Rightarrow> True | _ \<Rightarrow> False) v"

text \<open>
  The shape of a matrix, and the count listed for a tag in a document: the last pair
  for the tag decides (each pair overwrites the cell), with a default for a tag that
  the document does not list.
\<close>

definition shaped :: "nat \<Rightarrow> nat \<Rightarrow> matrix \<Rightarrow> bool" where
  "shaped m n A = (length A = m \<and> list_all (\<lambda>r. length r = n) A)"


text \<open>The values that the entries of a vector take when a zero vector is multiplied
  by a matrix.\<close>

definition zero_or_nan :: "npfloat \<Rightarrow> bool" where
  "zero_or_nan x = (x = Fin 0 \<or> x = NaN)"

text \<open>A vector in descending order.\<close>

definition descending :: "vector \<Rightarrow> bool" where
  "descending v = sorted_wrt (\<lambda>x y. fless y x \<or> x = y) v"

section \<open>A small corpus\<close>

text \<open>
  Five documents over two tags. The first four columns of the count matrix are
  multiples of each other, so the normalized matrix has the singular values 2 and 1;
  \<open>svd0\<close> returns its decomposition. \<open>inv_diag\<close> inverts a diagonal matrix as numpy's
  \<open>inv\<close> does, with \<open>LinAlgError\<close> for a matrix that is not square or is singular.
\<close>

definition corpus0 :: corpus where
  "corpus0 = [(''d'', [(''cat'', 2)]), (''a'', [(''cat'', 1)]), (''e'', [(''dog'', 2)]),
              (''c'', [(''cat'', 1)]), (''b'', [(''cat'', 1)])]"

definition svd0 :: "matrix \<Rightarrow> error + matrix \<times> vector \<times> matrix" where
  "svd0 A = Inr ([[Fin 1, Fin 0], [Fin 0, Fin 1]], [Fin 2, Fin 1],
     [[Fin (1/2), Fin (1/2), Fin (1/2), Fin (1/2), Fin 0],
      [Fin 0, Fin 0, Fin 0, Fin 0, Fin 1],
      [Fin (1/2), Fin (- 1/2), Fin (1/2), Fin (- 1/2), Fin 0],
      [Fin (1/2), Fin (1/2), Fin (- 1/2), Fin (- 1/2), Fin 0],
      [Fin (1/2), Fin (- 1/2), Fin (- 1/2), Fin (1/2), Fin 0]])"

definition inv_diag :: "matrix \<Rightarrow> error + matrix" where
  "inv_diag M =
     (if list_all (\<lambda>r. length r = length M) M \<and> list_all (\<lambda>i. M ! i ! i \<noteq> Fin 0) [0..<length M]
      then Inr (map (\<lambda>i. map (\<lambda>j. if i = j then fdiv (Fin 1) (M ! i ! i) else Fin 0)
                             [0..<length M]) [0..<length M])
      else Inl LinAlgError)"

text \<open>The engines that the constructor builds from \<open>corpus0\<close> with two components and
  with one.\<close>

definition engine2 :: "int \<Rightarrow> engine" where
  "engine2 n = \<lparr>urls = [''a'', ''b'', ''c'', ''d'', ''e''], tags = [''cat'', ''dog''], no_tags = 2,
     U = [[Fin 1, Fin 0], [Fin 0, Fin 1]],
     S = [[Fin 2, Fin 0], [Fin 0, Fin 1]],
     Vt = [[Fin (1/2), Fin (1/2), Fin (1/2), Fin (1/2), Fin 0],
           [Fin 0, Fin 0, Fin 0, Fin 0, Fin 1]],
     Ut = [[Fin 1, Fin 0], [Fin 0, Fin 1]],
     Si = [[Fin (1/2), Fin 0], [Fin 0, Fin 1]],
     no_svd_components = 2, no_results = n\<rparr>"

definition engine1 :: "int \<Rightarrow> engine" where
  "engine1 n = \<lparr>urls = [''a'', ''b'', ''c'', ''d'', ''e''], tags = [''cat'', ''dog''], no_tags = 2,
     U = [[Fin 1], [Fin 0]],
     S = [[Fin 2]],
     Vt = [[Fin (1/2), Fin (1/2), Fin (1/2), Fin (1/2), Fin 0]],
     Ut = [[Fin 1, Fin 0]],
     Si = [[Fin (1/2)]],
     no_svd_components = 1, no_results = n\<rparr>"


section \<open>The small corpus, evaluated\<close>

lemma upt_unfold: "[i..<numeral n] = (if i < numeral n then i # [Suc i..<numeral n] else [])"
  by (simp add: upt_rec)

lemma extractData_corpus0:
  "extractData corpus0 = ([''a'', ''b'', ''c'', ''d'', ''e''], [''cat'', ''dog''])"
  by (simp add: extractData_def corpus0_def)

lemma generateCounts_corpus0:
  "generateCounts corpus0 [''a'', ''b'', ''c'', ''d'', ''e''] [''cat'', ''dog'']
     = Inr [[Fin 1, Fin 1, Fin 1, Fin 2, Fin 0], [Fin 0, Fin 0, Fin 0, Fin 0, Fin 2]]"
  by (simp add: generateCounts_def corpus0_def zeros_def set_cell_def)

lemma normalize_columns_corpus0:
  "normalize_columns [[Fin 1, Fin 1, Fin 1, Fin 2, Fin 0], [Fin 0, Fin 0, Fin 0, Fin 0, Fin 2]]
     = [[Fin 1, Fin 1, Fin 1, Fin 1, Fin 0], [Fin 0, Fin 0, Fin 0, Fin 0, Fin 1]]"
  by (simp add: normalize_columns_def normalize_column_def ncols_def norm_np_def fsum_def
        Let_def upt_unfold upt_rec[of 0])

lemma truncatedSVD_corpus0_2:
  "truncatedSVD svd0 [[Fin 1, Fin 1, Fin 1, Fin 1, Fin 0], [Fin 0, Fin 0, Fin 0, Fin 0, Fin 1]] 2
     = Inr ([[Fin 1, Fin 0], [Fin 0, Fin 1]], [[Fin 2, Fin 0], [Fin 0, Fin 1]],
            [[Fin (1/2), Fin (1/2), Fin (1/2), Fin (1/2), Fin 0],
             [Fin 0, Fin 0, Fin 0, Fin 0, Fin 1]])"
  by (simp add: truncatedSVD_def svd0_def diag_matrix_def resize_col_def ncols_def
        py_slice_to_def Let_def upt_unfold upt_rec[of 0])

lemma truncatedSVD_corpus0_1:
  "truncatedSVD svd0 [[Fin 1, Fin 1, Fin 1, Fin 1, Fin 0], [Fin 0, Fin 0, Fin 0, Fin 0, Fin 1]] 1
     = Inr ([[Fin 1], [Fin 0]], [[Fin 2]],
            [[Fin (1/2), Fin (1/2), Fin (1/2), Fin (1/2), Fin 0]])"
  by (simp add: truncatedSVD_def svd0_def diag_matrix_def resize_col_def ncols_def
        py_slice_to_def Let_def upt_unfold upt_rec[of 0])

lemma inv_diag_2: "inv_diag [[Fin 2, Fin 0], [Fin 0, Fin 1]] = Inr [[Fin (1/2), Fin 0], [Fin 0, Fin 1]]"
  by (simp add: inv_diag_def upt_unfold upt_rec[of 0])

lemma inv_diag_1: "inv_diag [[Fin 2]] = Inr [[Fin (1/2)]]"
  by (simp add: inv_diag_def)

lemma engine2_built: "SearchEngine svd0 inv_diag corpus0 2 n = Inr (engine2 n)"
  by (simp add: SearchEngine_def extractData_corpus0 generateCounts_corpus0
        normalize_columns_corpus0 truncatedSVD_corpus0_2 inv_diag_2 engine2_def transposeM_def
        ncols_def upt_unfold upt_rec[of 0])

lemma engine1_built: "SearchEngine svd0 inv_diag corpus0 1 n = Inr (engine1 n)"
  by (simp add: SearchEngine_def extractData_corpus0 generateCounts_corpus0
        normalize_columns_corpus0 truncatedSVD_corpus0_1 inv_diag_1 engine1_def transposeM_def
        ncols_def)

lemma corpus0_keys: "distinct (map fst corpus0)"
  by (simp add: corpus0_def)

lemma engine2_fields [simp]:
  "urls (engine2 n) = [''a'', ''b'', ''c'', ''d'', ''e'']"
  "tags (engine2 n) = [''cat'', ''dog'']"
  "no_tags (engine2 n) = 2"
  "Vt (engine2 n) = [[Fin (1/2), Fin (1/2), Fin (1/2), Fin (1/2), Fin 0],
                     [Fin 0, Fin 0, Fin 0, Fin 0, Fin 1]]"
  "Ut (engine2 n) = [[Fin 1, Fin 0], [Fin 0, Fin 1]]"
  "Si (engine2 n) = [[Fin (1/2), Fin 0], [Fin 0, Fin 1]]"
  "no_results (engine2 n) = n"
  by (simp_all add: engine2_def)

lemma engine1_fields [simp]:
  "urls (engine1 n) = [''a'', ''b'', ''c'', ''d'', ''e'']"
  "tags (engine1 n) = [''cat'', ''dog'']"
  "no_tags (engine1 n) = 2"
  "Vt (engine1 n) = [[Fin (1/2), Fin (1/2), Fin (1/2), Fin (1/2), Fin 0]]"
  "Ut (engine1 n) = [[Fin 1, Fin 0]]"
  "Si (engine1 n) = [[Fin (1/2)]]"
  "no_results (engine1 n) = n"
  by (simp_all add: engine1_def)

lemma doc_dist_engine2:
  "doc_dist (engine2 n) [Fin 1, Fin 0] 0 = Inr (Fin 0)"
  "doc_dist (engine2 n) [Fin 1, Fin 0] (Suc 0) = Inr (Fin 0)"
  "doc_dist (engine2 n) [Fin 1, Fin 0] (Suc (Suc 0)) = Inr (Fin 0)"
  "doc_dist (engine2 n) [Fin 1, Fin 0] (Suc (Suc (Suc 0))) = Inr (Fin 0)"
  "doc_dist (engine2 n) [Fin 1, Fin 0] (Suc (Suc (Suc (Suc 0)))) = Inr (Fin (pi / 2))"
  by (simp_all add: doc_dist_def column_def cosDist_def cos_arg_def dot_def fsum_def norm_np_def
        real_sqrt_divide)

lemma doc_dist_engine2_all:
  "\<forall>i<length (urls (engine2 n)). \<exists>d. doc_dist (engine2 n) [Fin 1, Fin 0] i = Inr d \<and> d \<noteq> NaN"
  by (simp add: All_less_Suc doc_dist_engine2)

lemma cos_distances_engine2:
  "cos_distances (engine2 n) [Fin 1, Fin 0]
     = Inr [(0, Fin 0), (1, Fin 0), (2, Fin 0), (3, Fin 0), (4, Fin (pi / 2))]"
  by (simp add: cos_distances_def doc_dist_engine2 py_sort_key_def upt_unfold upt_rec[of 0])

section \<open>Sorting and the ranking loop\<close>

lemma fless_irrefl: "\<not> fless x x"
  by (cases x) auto

lemma fless_asym: "fless x y \<Longrightarrow> \<not> fless y x"
  by (cases x; cases y) auto

lemma fless_trans: "fless x y \<Longrightarrow> fless y z \<Longrightarrow> fless x z"
  by (cases x; cases y; cases z) auto

lemma fless_total: "x \<noteq> NaN \<Longrightarrow> y \<noteq> NaN \<Longrightarrow> fless x y \<or> x = y \<or> fless y x"
  by (cases x; cases y) auto

lemma mset_insort_by: "mset (insort_by key x xs) = add_mset x (mset xs)"
  by (induction xs) auto

lemma set_insort_by: "set (insort_by key x xs) = insert x (set xs)"
  by (induction xs) auto

lemma mset_foldl_insort_by:
  "mset (foldl (\<lambda>acc x. insort_by key x acc) a xs) = mset a + mset xs"
  by (induction xs arbitrary: a) (auto simp: mset_insort_by)

lemma mset_py_sort_key: "mset (py_sort_key key xs) = mset xs"
  by (simp add: py_sort_key_def mset_foldl_insort_by)

lemma py_sort_key_snoc:
  "py_sort_key key (xs @ [x]) = insort_by key x (py_sort_key key xs)"
  by (simp add: py_sort_key_def)

lemma insort_by_last:
  "\<forall>y\<in>set xs. \<not> fless (key x) (key y) \<Longrightarrow> insort_by key x xs = xs @ [x]"
  by (induction xs) auto

lemma idx_before_not_less: "idx_before a b \<Longrightarrow> \<not> fless (snd b) (snd a)"
  by (auto simp: idx_before_def fless_asym fless_irrefl)

lemma py_sort_key_sorted:
  "sorted_wrt idx_before xs \<Longrightarrow> py_sort_key snd xs = xs"
proof (induction xs rule: rev_induct)
  case Nil
  show ?case by (simp add: py_sort_key_def)
next
  case (snoc x xs)
  from snoc.prems have s: "sorted_wrt idx_before xs" and b: "\<forall>y\<in>set xs. idx_before y x"
    by (auto simp: sorted_wrt_append)
  from b have "\<forall>y\<in>set xs. \<not> fless (snd x) (snd y)"
    by (blast dest: idx_before_not_less)
  then show ?case
    by (simp add: py_sort_key_snoc snoc.IH[OF s] insort_by_last)
qed

lemma sorted_insort_by:
  assumes "sorted_wrt idx_before acc"
    and "\<forall>y\<in>set acc. fst y < i \<and> snd y \<noteq> NaN"
    and "d \<noteq> NaN"
  shows "sorted_wrt idx_before (insort_by snd (i, d) acc)"
  using assms
proof (induction acc)
  case Nil
  then show ?case by simp
next
  case (Cons y ys)
  show ?case
  proof (cases "fless d (snd y)")
    case True
    have "idx_before (i, d) z" if "z \<in> set (y # ys)" for z
    proof (cases "z = y")
      case True
      with \<open>fless d (snd y)\<close> show ?thesis by (simp add: idx_before_def)
    next
      case False
      with that Cons.prems(1) have "idx_before y z" by auto
      with \<open>fless d (snd y)\<close> show ?thesis
        by (auto simp: idx_before_def dest: fless_trans)
    qed
    with True Cons.prems(1) show ?thesis by simp
  next
    case False
    from Cons.prems have ny: "snd y \<noteq> NaN" and fy: "fst y < i" by auto
    from False fless_total[OF ny \<open>d \<noteq> NaN\<close>] fy have "idx_before y (i, d)"
      by (auto simp: idx_before_def)
    moreover from Cons have "sorted_wrt idx_before (insort_by snd (i, d) ys)" by simp
    ultimately show ?thesis
      using False Cons.prems(1) by (auto simp: set_insort_by)
  qed
qed

lemma cos_loop_mset:
  "cos_loop e qhat is acc = Inr cd \<Longrightarrow> mset (map fst cd) = mset (map fst acc) + mset is"
proof (induction "is" arbitrary: acc)
  case Nil
  then show ?case by simp
next
  case (Cons i "is")
  from Cons.prems obtain d where d: "doc_dist e qhat i = Inr d"
    and r: "cos_loop e qhat is (py_sort_key snd (acc @ [(i, d)])) = Inr cd"
    by (auto split: sum.splits)
  have "mset (map fst (py_sort_key snd (acc @ [(i, d)]))) = mset (map fst acc) + {#i#}"
    using mset_py_sort_key[of snd "acc @ [(i, d)]"]
    by (metis (no_types, lifting) mset_map image_mset_single image_mset_union mset.simps(1) mset.simps(2) mset_append fst_conv)
  with Cons.IH[OF r] show ?case by simp
qed

lemma cos_loop_dist:
  "cos_loop e qhat is acc = Inr cd \<Longrightarrow> p \<in> set cd \<Longrightarrow>
     p \<in> set acc \<or> (fst p \<in> set is \<and> doc_dist e qhat (fst p) = Inr (snd p))"
proof (induction "is" arbitrary: acc)
  case Nil
  then show ?case by simp
next
  case (Cons i "is")
  from Cons.prems obtain d where d: "doc_dist e qhat i = Inr d"
    and r: "cos_loop e qhat is (py_sort_key snd (acc @ [(i, d)])) = Inr cd"
    by (auto split: sum.splits)
  have s: "set (py_sort_key snd (acc @ [(i, d)])) = insert (i, d) (set acc)"
    using mset_py_sort_key[of snd "acc @ [(i, d)]"] by (metis set_mset_mset set_append list.set(1) list.set(2) Un_insert_right sup_bot.right_neutral)
  from Cons.IH[OF r Cons.prems(2)] s d show ?case by auto
qed

lemma cos_loop_total:
  "\<forall>i\<in>set is. \<exists>d. doc_dist e qhat i = Inr d \<Longrightarrow> \<exists>cd. cos_loop e qhat is acc = Inr cd"
  by (induction "is" arbitrary: acc) auto

lemma cos_loop_sorted:
  assumes "sorted_wrt idx_before acc"
    and "\<forall>y\<in>set acc. snd y \<noteq> NaN \<and> (\<forall>i\<in>set is. fst y < i)"
    and "sorted_wrt (<) is"
    and "\<forall>i\<in>set is. \<exists>d. doc_dist e qhat i = Inr d \<and> d \<noteq> NaN"
    and "cos_loop e qhat is acc = Inr cd"
  shows "sorted_wrt idx_before cd"
  using assms
proof (induction "is" arbitrary: acc)
  case Nil
  then show ?case by simp
next
  case (Cons i "is")
  from Cons.prems(4) obtain d where d: "doc_dist e qhat i = Inr d" and n: "d \<noteq> NaN"
    by auto
  let ?acc = "py_sort_key snd (acc @ [(i, d)])"
  from Cons.prems(5) d have r: "cos_loop e qhat is ?acc = Inr cd" by simp
  have e: "?acc = insort_by snd (i, d) acc"
    by (simp add: py_sort_key_snoc py_sort_key_sorted[OF Cons.prems(1)])
  have s: "sorted_wrt idx_before ?acc"
    unfolding e using Cons.prems(1,2) n by (intro sorted_insort_by) auto
  have b: "\<forall>y\<in>set ?acc. snd y \<noteq> NaN \<and> (\<forall>j\<in>set is. fst y < j)"
    unfolding e using Cons.prems(2,3) n by (auto simp: set_insort_by)
  from Cons.prems(3) have "sorted_wrt (<) is" by simp
  moreover from Cons.prems(4) have "\<forall>i\<in>set is. \<exists>d. doc_dist e qhat i = Inr d \<and> d \<noteq> NaN"
    by simp
  ultimately show ?case using Cons.IH[OF s b _ _ r] by blast
qed

lemma SearchEngine_fields:
  assumes "SearchEngine svd inverse_fn data k n = Inr e"
  shows "urls e = sort (map fst data)" and "tags e = snd (extractData data)"
    and "no_tags e = length (tags e)" and "no_results e = n"
    and "Ut e = transposeM (U e)"
  using assms
  by (auto simp: SearchEngine_def extractData_def split: sum.splits prod.splits)

lemma sorted_distinct_nth_less:
  fixes xs :: "'a::linorder list"
  assumes "sorted xs" "distinct xs" "i < j" "j < length xs"
  shows "xs ! i < xs ! j"
  using assms by (metis sorted_wrt_nth_less strict_sorted_iff)

lemma SearchEngine_urls_nth_less:
  assumes "SearchEngine svd inverse_fn data k n = Inr e" and "distinct (map fst data)"
    and "i < j" and "j < length (urls e)"
  shows "urls e ! i < urls e ! j"
proof -
  have u: "urls e = sort (map fst data)" by (rule SearchEngine_fields(1)[OF assms(1)])
  have "sorted (urls e)" "distinct (urls e)" using assms(2) by (simp_all add: u)
  then show ?thesis using assms(3,4) by (rule sorted_distinct_nth_less)
qed

lemma cos_distances_props:
  assumes "\<forall>i<length (urls e). \<exists>d. doc_dist e qhat i = Inr d"
  shows "\<exists>cd. cos_distances e qhat = Inr cd
           \<and> mset (map fst cd) = mset [0..<length (urls e)]
           \<and> (\<forall>p\<in>set cd. doc_dist e qhat (fst p) = Inr (snd p))"
proof -
  from assms have "\<forall>i\<in>set [0..<length (urls e)]. \<exists>d. doc_dist e qhat i = Inr d" by simp
  from cos_loop_total[OF this, of "[]"] obtain cd
    where cd: "cos_loop e qhat [0..<length (urls e)] [] = Inr cd" by blast
  have "mset (map fst cd) = mset [0..<length (urls e)]"
    using cos_loop_mset[OF cd] by simp
  moreover have "\<forall>p\<in>set cd. doc_dist e qhat (fst p) = Inr (snd p)"
    using cos_loop_dist[OF cd] by auto
  ultimately show ?thesis using cd by (simp add: cos_distances_def)
qed

text \<open>
  Claim C1, amended. For an engine built from a corpus and a projected query for which
  the distance of every document is computed and is not \<open>nan\<close>, the list
  \<open>cos_distances\<close> holds every document once with its distance, in ascending order of
  distance, and documents at exactly the same distance in ascending order of their
  urls; \<open>nearest_urls\<close> returns the urls of its first entries. The output is a function
  of the engine and the query.
\<close>

theorem ranking_ascending_ties_by_id:
  assumes built: "SearchEngine svd inverse_fn data k n = Inr e"
    and keys: "distinct (map fst data)"
    and dist: "\<forall>i<length (urls e). \<exists>d. doc_dist e qhat i = Inr d \<and> d \<noteq> NaN"
  shows "\<exists>cd. cos_distances e qhat = Inr cd
           \<and> mset (map fst cd) = mset [0..<length (urls e)]
           \<and> (\<forall>p\<in>set cd. doc_dist e qhat (fst p) = Inr (snd p))
           \<and> sorted_wrt (ranked_before e) cd
           \<and> nearest_urls e qhat ov
               = Inr (map (\<lambda>pair. urls e ! fst pair) (py_slice_to (result_count e ov) cd))"
proof -
  from dist have "\<forall>i<length (urls e). \<exists>d. doc_dist e qhat i = Inr d" by blast
  from cos_distances_props[OF this] obtain cd where cd: "cos_distances e qhat = Inr cd"
    and m: "mset (map fst cd) = mset [0..<length (urls e)]"
    and d: "\<forall>p\<in>set cd. doc_dist e qhat (fst p) = Inr (snd p)" by blast
  from cd have l: "cos_loop e qhat [0..<length (urls e)] [] = Inr cd"
    by (simp add: cos_distances_def)
  have "sorted_wrt idx_before cd"
    by (rule cos_loop_sorted[OF _ _ _ _ l]) (use dist in auto)
  moreover have "ranked_before e a b" if "a \<in> set cd" "b \<in> set cd" "idx_before a b" for a b
  proof -
    have r: "fst p < length (urls e)" if "p \<in> set cd" for p
    proof -
      from that have "fst p \<in> set (map fst cd)" by simp
      then have "fst p \<in># mset (map fst cd)" by simp
      then show ?thesis unfolding m by simp
    qed
    from r[OF that(1)] dist d that(1) have "snd a \<noteq> NaN" by fastforce
    moreover have "fst a < fst b \<Longrightarrow> urls e ! fst a < urls e ! fst b"
      using SearchEngine_urls_nth_less[OF built keys] r[OF that(2)] by blast
    ultimately show ?thesis
      using that(3) by (auto simp: idx_before_def ranked_before_def feq_def)
  qed
  ultimately have "sorted_wrt (ranked_before e) cd"
    by (rule sorted_wrt_mono_rel[rotated]) 
  with cd m d show ?thesis by (simp add: nearest_urls_def)
qed

theorem ranking_ascending_ties_by_id_witness:
  "sorted_wrt (ranked_before (engine2 3))
     [(0, Fin 0), (1, Fin 0), (2, Fin 0), (3, Fin 0), (4, Fin (pi / 2))]
   \<and> nearest_urls (engine2 3) [Fin 1, Fin 0] None = Inr [''a'', ''b'', ''c'']"
  using ranking_ascending_ties_by_id[OF engine2_built corpus0_keys doc_dist_engine2_all, of 3 None]
  by (simp add: cos_distances_engine2 result_count_def py_slice_to_def)

text \<open>
  Claim C1 as stated fails where a distance is \<open>nan\<close>. In the engine built from the
  small corpus with one component, the projected query of the key word \<open>cat\<close> is
  \<open>[1]\<close> and the column of document \<open>e\<close> is the zero vector: its distance is \<open>0/0\<close>,
  and the ranking is ascending in neither order of the documents \<open>d\<close> and \<open>e\<close>.
\<close>

theorem ranking_nan_counterexample:
  "SearchEngine svd0 inv_diag corpus0 1 5 = Inr (engine1 5)
   \<and> project (engine1 5) (build_query_vector (engine1 5) [''cat'']) = Inr [Fin 1]
   \<and> cos_distances (engine1 5) [Fin 1]
        = Inr [(0, Fin 0), (1, Fin 0), (2, Fin 0), (3, Fin 0), (4, NaN)]
   \<and> \<not> ranked_before (engine1 5) (3, Fin 0) (4, NaN)
   \<and> \<not> ranked_before (engine1 5) (4, NaN) (3, Fin 0)"
proof -
  have b: "build_query_vector (engine1 5) [''cat''] = [Fin 1, Fin 0]"
    by (simp add: build_query_vector_def zeros_def numeral_2_eq_2)
  have p: "project (engine1 5) [Fin 1, Fin 0] = Inr [Fin 1]"
    by (simp add: project_def matvec_def fsum_def norm_np_def real_sqrt_divide)
  have d: "doc_dist (engine1 5) [Fin 1] 0 = Inr (Fin 0)"
    "doc_dist (engine1 5) [Fin 1] (Suc 0) = Inr (Fin 0)"
    "doc_dist (engine1 5) [Fin 1] (Suc (Suc 0)) = Inr (Fin 0)"
    "doc_dist (engine1 5) [Fin 1] (Suc (Suc (Suc 0))) = Inr (Fin 0)"
    "doc_dist (engine1 5) [Fin 1] (Suc (Suc (Suc (Suc 0)))) = Inr NaN"
    by (simp_all add: doc_dist_def column_def cosDist_def cos_arg_def dot_def fsum_def
          norm_np_def real_sqrt_divide inf_of_sign_def)
  have c: "cos_distances (engine1 5) [Fin 1]
             = Inr [(0, Fin 0), (1, Fin 0), (2, Fin 0), (3, Fin 0), (4, NaN)]"
    by (simp add: cos_distances_def d py_sort_key_def upt_unfold upt_rec[of 0])
  show ?thesis
    by (simp add: engine1_built b p c ranked_before_def feq_def)
qed

section \<open>The number of results\<close>

text \<open>
  Claim C7, amended. With \<open>N\<close> the count that \<open>nearest_urls\<close> uses (the override when it
  is given and not zero, the default of the engine otherwise) and \<open>N\<close> not negative, the
  ranking returns exactly \<open>min N d\<close> urls of the \<open>d\<close> documents, without duplicates, and
  all of them when \<open>N\<close> is \<open>d\<close> or more.
\<close>

theorem nearest_urls_count:
  assumes built: "SearchEngine svd inverse_fn data k n = Inr e"
    and keys: "distinct (map fst data)"
    and dist: "\<forall>i<length (urls e). \<exists>d. doc_dist e qhat i = Inr d"
    and nonneg: "0 \<le> result_count e ov"
  shows "\<exists>res. nearest_urls e qhat ov = Inr res
           \<and> length res = min (nat (result_count e ov)) (length data)
           \<and> distinct res \<and> set res \<subseteq> fst ` set data
           \<and> (int (length data) \<le> result_count e ov \<longrightarrow> set res = fst ` set data)"
proof -
  let ?N = "nat (result_count e ov)"
  have u: "urls e = sort (map fst data)" by (rule SearchEngine_fields(1)[OF built])
  have du: "distinct (urls e)" and su: "set (urls e) = fst ` set data"
    and lu: "length (urls e) = length data"
    using keys by (simp_all add: u)
  from cos_distances_props[OF dist] obtain cd where cd: "cos_distances e qhat = Inr cd"
    and m: "mset (map fst cd) = mset [0..<length (urls e)]" by blast
  let ?is = "take ?N (map fst cd)"
  let ?res = "map (\<lambda>i. urls e ! i) ?is"
  have r: "nearest_urls e qhat ov = Inr ?res"
    using nonneg by (simp add: nearest_urls_def cd py_slice_to_def take_map)
  have lc: "length (map fst cd) = length (urls e)"
    using m by (metis size_mset length_upt diff_zero)
  have dc: "distinct (map fst cd)"
    using m by (metis distinct_upt mset_eq_imp_distinct_iff)
  have sc: "set (map fst cd) = {0..<length (urls e)}"
    using m by (metis set_mset_mset set_upt)
  have d_is: "distinct ?is" using dc by (rule distinct_take)
  have s_is: "set ?is \<subseteq> {0..<length (urls e)}"
    using sc set_take_subset by fastforce
  have "inj_on (\<lambda>i. urls e ! i) (set ?is)"
    using s_is du by (intro inj_onI) (auto simp: nth_eq_iff_index_eq subset_iff)
  with d_is have 1: "distinct ?res" by (simp add: distinct_map)
  have 2: "length ?res = min ?N (length data)" using lc lu by simp
  have 3: "set ?res \<subseteq> fst ` set data"
  proof
    fix x assume "x \<in> set ?res"
    then obtain i where "i \<in> set ?is" and x: "x = urls e ! i" by auto
    with s_is have "i < length (urls e)" by auto
    then have "x \<in> set (urls e)" unfolding x by (rule nth_mem)
    then show "x \<in> fst ` set data" by (simp only: su)
  qed
  have 4: "set ?res = fst ` set data" if "int (length data) \<le> result_count e ov"
  proof -
    from that lc lu have "?is = map fst cd" by simp
    then have "set ?res = (\<lambda>i. urls e ! i) ` {0..<length (urls e)}"
      using sc by (metis set_map)
    also have "\<dots> = set (urls e)" by (metis map_nth set_map set_upt)
    finally show ?thesis by (simp add: su)
  qed
  from r 1 2 3 4 show ?thesis by blast
qed

theorem nearest_urls_count_witness:
  "nearest_urls (engine2 3) [Fin 1, Fin 0] (Some 7) = Inr [''a'', ''b'', ''c'', ''d'', ''e'']
   \<and> (\<exists>res. nearest_urls (engine2 3) [Fin 1, Fin 0] (Some 7) = Inr res
         \<and> length res = min (nat 7) (length corpus0) \<and> distinct res)"
proof -
  have d: "\<forall>i<length (urls (engine2 3)). \<exists>d. doc_dist (engine2 3) [Fin 1, Fin 0] i = Inr d"
    using doc_dist_engine2_all by blast
  have n: "0 \<le> result_count (engine2 3) (Some 7)" by (simp add: result_count_def)
  have "nearest_urls (engine2 3) [Fin 1, Fin 0] (Some 7) = Inr [''a'', ''b'', ''c'', ''d'', ''e'']"
    by (simp add: nearest_urls_def cos_distances_engine2 result_count_def py_slice_to_def)
  with nearest_urls_count[OF engine2_built corpus0_keys d n] show ?thesis
    by (simp add: result_count_def)
qed

text \<open>Claim C7 as stated fails for a requested count of zero: the override \<open>0\<close>
  returns three of the five documents.\<close>

theorem nearest_urls_count_counterexample:
  "SearchEngine svd0 inv_diag corpus0 2 3 = Inr (engine2 3)
   \<and> nearest_urls (engine2 3) [Fin 1, Fin 0] (Some 0) = Inr [''a'', ''b'', ''c'']
   \<and> length [''a'', ''b'', ''c''] \<noteq> min (nat 0) (length (urls (engine2 3)))"
  by (simp add: engine2_built nearest_urls_def cos_distances_engine2 result_count_def
        py_slice_to_def)

text \<open>
  Claim C10, amended. For every engine, \<open>nearest_urls\<close> with the override \<open>0\<close> returns
  what it returns without an override: the default count of the engine is used. The
  list is not empty when that default is positive and the engine has a document.
\<close>

theorem zero_override_uses_default:
  "nearest_urls e qhat (Some 0) = nearest_urls e qhat None
   \<and> ((\<forall>i<length (urls e). \<exists>d. doc_dist e qhat i = Inr d) \<and> 0 < no_results e \<and> urls e \<noteq> []
        \<longrightarrow> (\<exists>res. nearest_urls e qhat (Some 0) = Inr res \<and> res \<noteq> []
               \<and> length res = min (nat (no_results e)) (length (urls e))))"
proof -
  have "result_count e (Some 0) = result_count e None"
    by (simp add: result_count_def)
  then have eq: "nearest_urls e qhat (Some 0) = nearest_urls e qhat None"
    by (simp only: nearest_urls_def)
  have "\<exists>res. nearest_urls e qhat (Some 0) = Inr res \<and> res \<noteq> []
               \<and> length res = min (nat (no_results e)) (length (urls e))"
    if dist: "\<forall>i<length (urls e). \<exists>d. doc_dist e qhat i = Inr d"
      and pos: "0 < no_results e" and ne: "urls e \<noteq> []"
  proof -
    from cos_distances_props[OF dist] obtain cd where cd: "cos_distances e qhat = Inr cd"
      and m: "mset (map fst cd) = mset [0..<length (urls e)]" by blast
    have lc: "length cd = length (urls e)"
      using m by (metis size_mset length_upt diff_zero length_map)
    let ?res = "map (\<lambda>pair. urls e ! fst pair) (take (nat (no_results e)) cd)"
    have "nearest_urls e qhat (Some 0) = Inr ?res"
      using pos by (simp add: nearest_urls_def cd result_count_def py_slice_to_def)
    moreover have "length ?res = min (nat (no_results e)) (length (urls e))"
      using lc by simp
    moreover from this pos ne have "?res \<noteq> []"
      by (metis length_0_conv min_less_iff_conj zero_less_nat_eq length_greater_0_conv less_numeral_extra(3))
    ultimately show ?thesis by blast
  qed
  with eq show ?thesis by blast
qed

theorem zero_override_uses_default_witness:
  "nearest_urls (engine2 3) [Fin 1, Fin 0] (Some 0) = Inr [''a'', ''b'', ''c'']
   \<and> nearest_urls (engine2 3) [Fin 1, Fin 0] None = Inr [''a'', ''b'', ''c'']"
proof -
  have d: "\<forall>i<length (urls (engine2 3)). \<exists>d. doc_dist (engine2 3) [Fin 1, Fin 0] i = Inr d"
    using doc_dist_engine2_all by blast
  have "nearest_urls (engine2 3) [Fin 1, Fin 0] None = Inr [''a'', ''b'', ''c'']"
    by (simp add: nearest_urls_def cos_distances_engine2 result_count_def py_slice_to_def)
  with zero_override_uses_default[of "engine2 3" "[Fin 1, Fin 0]"] d show ?thesis
    by simp
qed

text \<open>Claim C10 as stated fails for an engine whose default count is zero: the
  override \<open>0\<close> then returns the empty list.\<close>

theorem zero_override_counterexample:
  "SearchEngine svd0 inv_diag corpus0 2 0 = Inr (engine2 0)
   \<and> nearest_urls (engine2 0) [Fin 1, Fin 0] (Some 0) = Inr []"
  by (simp add: engine2_built nearest_urls_def cos_distances_engine2 result_count_def
        py_slice_to_def)

section \<open>The count matrix\<close>

lemma shapedD: "shaped m n A \<Longrightarrow> i < m \<Longrightarrow> length (A ! i) = n"
  by (auto simp: shaped_def list_all_length)

lemma index_of_None: "index_of x xs = None \<longleftrightarrow> x \<notin> set xs"
  by (induction xs) auto

lemma index_of_Some: "index_of x xs = Some i \<Longrightarrow> i < length xs \<and> xs ! i = x"
  by (induction xs arbitrary: i) (auto split: if_splits)

lemma index_of_nth: "distinct xs \<Longrightarrow> i < length xs \<Longrightarrow> index_of (xs ! i) xs = Some i"
proof (induction xs arbitrary: i)
  case Nil
  then show ?case by simp
next
  case (Cons y ys)
  then show ?case by (cases i) auto
qed


















section \<open>Normalization of the columns\<close>

lemma normalize_column_shaped: "shaped m n A \<Longrightarrow> shaped m n (normalize_column c A)"
  by (auto simp: shaped_def normalize_column_def Let_def list_all_length)

lemma normalize_column_other:
  "j \<noteq> c \<Longrightarrow> map (\<lambda>r. r ! j) (normalize_column c A) = map (\<lambda>r. r ! j) A"
  by (simp add: normalize_column_def Let_def)

lemma normalize_column_same:
  assumes "shaped m n A" "c < n"
  shows "map (\<lambda>r. r ! c) (normalize_column c A)
           = map (\<lambda>x. fdiv x (norm_np (map (\<lambda>r. r ! c) A))) (map (\<lambda>r. r ! c) A)"
  using assms by (auto simp: normalize_column_def Let_def shaped_def list_all_iff)

lemma fold_normalize_column_shaped:
  "shaped m n A \<Longrightarrow> shaped m n (fold normalize_column cs A)"
  by (induction cs arbitrary: A) (auto simp: normalize_column_shaped)

lemma fold_normalize_column_other:
  "j \<notin> set cs \<Longrightarrow> map (\<lambda>r. r ! j) (fold normalize_column cs A) = map (\<lambda>r. r ! j) A"
  by (induction cs arbitrary: A) (auto simp: normalize_column_other)

lemma fold_normalize_column_col:
  assumes "shaped m n A" "distinct cs" "j \<in> set cs" "j < n"
  shows "map (\<lambda>r. r ! j) (fold normalize_column cs A)
           = map (\<lambda>x. fdiv x (norm_np (map (\<lambda>r. r ! j) A))) (map (\<lambda>r. r ! j) A)"
  using assms
proof (induction cs arbitrary: A)
  case Nil
  then show ?case by simp
next
  case (Cons c cs)
  show ?case
  proof (cases "j = c")
    case True
    with Cons.prems have "j \<notin> set cs" by simp
    then show ?thesis
      using Cons.prems True
      by (simp add: fold_normalize_column_other normalize_column_same[OF Cons.prems(1)])
  next
    case False
    with Cons.prems have "j \<in> set cs" "distinct cs" by simp_all
    have o: "map (\<lambda>r. r ! j) (normalize_column c A) = map (\<lambda>r. r ! j) A"
      by (rule normalize_column_other[OF False])
    have "map (\<lambda>r. r ! j) (fold normalize_column cs (normalize_column c A))
            = map (\<lambda>x. fdiv x (norm_np (map (\<lambda>r. r ! j) (normalize_column c A))))
                (map (\<lambda>r. r ! j) (normalize_column c A))"
      by (rule Cons.IH[OF normalize_column_shaped[OF Cons.prems(1)] \<open>distinct cs\<close>
            \<open>j \<in> set cs\<close> Cons.prems(4)])
    then show ?thesis unfolding o by simp
  qed
qed

lemma ncols_shaped: "shaped m n A \<Longrightarrow> 0 < m \<Longrightarrow> ncols A = n"
  by (cases A) (auto simp: shaped_def ncols_def)

lemma normalize_columns_column:
  assumes "shaped m n A" "0 < m" "j < n"
  shows "shaped m n (normalize_columns A)"
    and "map (\<lambda>r. r ! j) (normalize_columns A)
           = map (\<lambda>x. fdiv x (norm_np (map (\<lambda>r. r ! j) A))) (map (\<lambda>r. r ! j) A)"
proof -
  show "shaped m n (normalize_columns A)"
    using assms(1) by (simp add: normalize_columns_def fold_normalize_column_shaped)
  have "j \<in> set [0..<ncols A]" using assms by (simp add: ncols_shaped)
  from fold_normalize_column_col[OF assms(1) distinct_upt this assms(3)]
  show "map (\<lambda>r. r ! j) (normalize_columns A)
           = map (\<lambda>x. fdiv x (norm_np (map (\<lambda>r. r ! j) A))) (map (\<lambda>r. r ! j) A)"
    by (simp add: normalize_columns_def)
qed

lemma fsum_zeros: "fsum (replicate n (Fin 0)) = Fin 0"
  by (induction n) (auto simp: fsum_def)

lemma norm_np_zeros: "norm_np (replicate n (Fin 0)) = Fin 0"
  by (simp add: norm_np_def fsum_zeros)

text \<open>
  Claim C3, amended. For a matrix with a column whose entries are all zero,
  \<open>normalize_columns\<close> raises nothing: it divides the column by its norm 0, the matrix
  keeps its shape and every entry of that column becomes \<open>nan\<close>.
\<close>

theorem normalize_columns_zero_column:
  assumes shape: "shaped m n A" and j: "j < n" and i: "i < m"
    and zero: "list_all (\<lambda>r. r ! j = Fin 0) A"
  shows "shaped m n (normalize_columns A) \<and> normalize_columns A ! i ! j = NaN"
proof -
  from i have m: "0 < m" by simp
  from shape have l: "length A = m" by (simp add: shaped_def)
  from zero have z: "map (\<lambda>r. r ! j) A = replicate m (Fin 0)"
    by (simp add: list_all_iff l[symmetric] map_replicate_const[symmetric] cong: map_cong)
  from normalize_columns_column[OF shape m j]
  have s: "shaped m n (normalize_columns A)"
    and c: "map (\<lambda>r. r ! j) (normalize_columns A) = replicate m NaN"
    by (simp_all add: z norm_np_zeros inf_of_sign_def)
  from s have "length (normalize_columns A) = m" by (simp add: shaped_def)
  with i have "normalize_columns A ! i ! j = map (\<lambda>r. r ! j) (normalize_columns A) ! i"
    by simp
  also have "\<dots> = NaN" using i by (simp only: c nth_replicate)
  finally show ?thesis using s by simp
qed

theorem normalize_columns_zero_column_witness:
  "normalize_columns [[Fin 1, Fin 0], [Fin 0, Fin 0]] ! 1 ! 1 = NaN
   \<and> shaped 2 2 (normalize_columns [[Fin 1, Fin 0], [Fin 0, Fin 0]])"
proof -
  have s: "shaped 2 2 [[Fin 1, Fin 0], [Fin 0, Fin 0]]" by (simp add: shaped_def)
  have z: "list_all (\<lambda>r. r ! 1 = Fin 0) [[Fin 1, Fin 0], [Fin 0, Fin 0]]" by simp
  from normalize_columns_zero_column[OF s _ _ z, of 1] show ?thesis by simp
qed

text \<open>
  Claim C3 as stated fails: a document without tags gives a zero column of the count
  matrix, and \<open>normalize_columns\<close> returns the matrix with \<open>nan\<close> in that column.
\<close>

theorem empty_document_counterexample:
  "generateCounts [(''a'', [(''cat'', 1)]), (''b'', [])] [''a'', ''b''] [''cat'']
     = Inr [[Fin 1, Fin 0]]
   \<and> normalize_columns [[Fin 1, Fin 0]] = [[Fin 1, NaN]]"
  by (simp add: generateCounts_def zeros_def set_cell_def normalize_columns_def
        normalize_column_def ncols_def norm_np_def fsum_def Let_def inf_of_sign_def
        upt_unfold upt_rec[of 0])

section \<open>Queries of unknown key words\<close>

lemma fmul_zero_or_nan: "zero_or_nan y \<Longrightarrow> zero_or_nan (fmul x y)"
  by (cases x) (auto simp: zero_or_nan_def inf_of_sign_def)

lemma fadd_zero_or_nan: "zero_or_nan x \<Longrightarrow> zero_or_nan y \<Longrightarrow> zero_or_nan (fadd x y)"
  by (auto simp: zero_or_nan_def)

lemma foldl_fadd_zero_or_nan:
  "zero_or_nan a \<Longrightarrow> list_all zero_or_nan xs \<Longrightarrow> zero_or_nan (foldl fadd a xs)"
  by (induction xs arbitrary: a) (auto simp: fadd_zero_or_nan)

lemma fsum_zero_or_nan: "list_all zero_or_nan xs \<Longrightarrow> zero_or_nan (fsum xs)"
  unfolding fsum_def by (rule foldl_fadd_zero_or_nan) (simp_all add: zero_or_nan_def)

lemma map2_fmul_zero_or_nan:
  "list_all zero_or_nan v \<Longrightarrow> list_all zero_or_nan (map2 fmul r v)"
  by (induction r v rule: list_induct2') (simp_all add: fmul_zero_or_nan)

lemma matvec_zero_or_nan:
  assumes "list_all zero_or_nan v" "list_all (\<lambda>r. length r = length v) M"
  shows "\<exists>w. matvec M v = Inr w \<and> length w = length M \<and> list_all zero_or_nan w"
proof -
  let ?w = "map (\<lambda>r. fsum (map2 fmul r v)) M"
  have "matvec M v = Inr ?w" using assms(2) by (simp add: matvec_def)
  moreover have "zero_or_nan (fsum (map2 fmul r v))" for r
    by (rule fsum_zero_or_nan[OF map2_fmul_zero_or_nan[OF assms(1)]])
  then have "list_all zero_or_nan ?w" by (simp add: list_all_iff)
  ultimately show ?thesis by simp
qed

lemma norm_np_zero_or_nan: "list_all zero_or_nan v \<Longrightarrow> zero_or_nan (norm_np v)"
proof -
  assume v: "list_all zero_or_nan v"
  then have "list_all zero_or_nan (map (\<lambda>x. fmul x x) v)"
    by (auto simp: list_all_iff fmul_zero_or_nan)
  then have "zero_or_nan (fsum (map (\<lambda>x. fmul x x) v))" by (rule fsum_zero_or_nan)
  then show ?thesis by (auto simp: norm_np_def zero_or_nan_def)
qed

lemma fdiv_zero_or_nan: "zero_or_nan x \<Longrightarrow> zero_or_nan n \<Longrightarrow> fdiv x n = NaN"
  by (auto simp: zero_or_nan_def inf_of_sign_def)

lemma build_query_vector_unknown:
  assumes "\<forall>key\<in>set key_words. key \<notin> set (tags e)"
  shows "build_query_vector e key_words = zeros (no_tags e)"
proof -
  have "fold (\<lambda>key q. case index_of key (tags e) of None \<Rightarrow> q
                       | Some i \<Rightarrow> if i < length q then q[i := Fin 1] else q) key_words q = q"
    for q using assms by (induction key_words arbitrary: q) (simp_all add: index_of_None[THEN iffD2])
  then show ?thesis by (simp add: build_query_vector_def)
qed

lemma project_zero_or_nan:
  assumes q: "list_all zero_or_nan q"
    and ut: "list_all (\<lambda>r. length r = length q) (Ut e)"
    and si: "list_all (\<lambda>r. length r = length (Ut e)) (Si e)"
  shows "project e q = Inr (replicate (length (Si e)) NaN)"
proof -
  from matvec_zero_or_nan[OF q ut] obtain v where v: "matvec (Ut e) q = Inr v"
    and lv: "length v = length (Ut e)" and zv: "list_all zero_or_nan v" by blast
  from si lv have "list_all (\<lambda>r. length r = length v) (Si e)" by simp
  from matvec_zero_or_nan[OF zv this] obtain w where w: "matvec (Si e) v = Inr w"
    and lw: "length w = length (Si e)" and zw: "list_all zero_or_nan w" by blast
  have "fdiv x (norm_np w) = NaN" if "x \<in> set w" for x
  proof -
    from zw that have "zero_or_nan x" by (simp add: list_all_iff)
    then show ?thesis using norm_np_zero_or_nan[OF zw] by (rule fdiv_zero_or_nan)
  qed
  then have "map (\<lambda>x. fdiv x (norm_np w)) w = map (\<lambda>x. NaN) w"
    by (simp cong: map_cong)
  then have "map (\<lambda>x. fdiv x (norm_np w)) w = replicate (length w) NaN"
    by (simp only: map_replicate_const)
  then show ?thesis by (simp add: project_def v w lw)
qed

lemma doc_dist_shapes:
  assumes "list_all (\<lambda>r. length r = n) (Vt e)" "i < n" "length qhat = length (Vt e)"
  shows "\<exists>d. doc_dist e qhat i = Inr d"
  using assms by (auto simp: doc_dist_def column_def cosDist_def cos_arg_def dot_def list_all_iff)

text \<open>
  Claim C2, amended. For key words that are all absent from the tags, the query vector
  is zero, and in an engine whose matrices fit in shape \<open>project\<close> raises nothing: it
  divides the zero projection by its zero norm and returns a vector of \<open>nan\<close>, and
  \<open>search\<close> returns a list of urls.
\<close>

theorem unknown_query_projects_to_nan:
  assumes unknown: "\<forall>key\<in>set key_words. key \<notin> set (tags e)"
    and ut: "list_all (\<lambda>r. length r = no_tags e) (Ut e)"
    and si: "list_all (\<lambda>r. length r = length (Ut e)) (Si e)"
    and vt: "list_all (\<lambda>r. length r = length (urls e)) (Vt e)"
    and k: "length (Vt e) = length (Si e)"
  shows "build_query_vector e key_words = zeros (no_tags e)
         \<and> project e (build_query_vector e key_words) = Inr (replicate (length (Si e)) NaN)
         \<and> (\<exists>res. search e key_words = Inr res)"
proof -
  let ?q = "zeros (no_tags e)" and ?qhat = "replicate (length (Si e)) NaN"
  have b: "build_query_vector e key_words = ?q" by (rule build_query_vector_unknown[OF unknown])
  have "list_all zero_or_nan ?q" by (simp add: zeros_def zero_or_nan_def list_all_iff)
  moreover from ut have "list_all (\<lambda>r. length r = length ?q) (Ut e)" by (simp add: zeros_def)
  ultimately have p: "project e ?q = Inr ?qhat" using si by (rule project_zero_or_nan)
  have "\<forall>i<length (urls e). \<exists>d. doc_dist e ?qhat i = Inr d"
    using doc_dist_shapes[OF vt] k by simp
  from cos_distances_props[OF this] obtain cd where "cos_distances e ?qhat = Inr cd" by blast
  then have "\<exists>res. nearest_urls e ?qhat None = Inr res" by (simp add: nearest_urls_def)
  then have "\<exists>res. search e key_words = Inr res" by (simp add: search_def b p)
  with b p show ?thesis by simp
qed

theorem unknown_query_projects_to_nan_witness:
  "build_query_vector (engine2 3) [''bird'', ''fish''] = [Fin 0, Fin 0]
   \<and> project (engine2 3) (build_query_vector (engine2 3) [''bird'', ''fish'']) = Inr [NaN, NaN]"
proof -
  have u: "\<forall>key\<in>set [''bird'', ''fish'']. key \<notin> set (tags (engine2 3))" by simp
  have "list_all (\<lambda>r. length r = no_tags (engine2 3)) (Ut (engine2 3))"
    and "list_all (\<lambda>r. length r = length (Ut (engine2 3))) (Si (engine2 3))"
    and "list_all (\<lambda>r. length r = length (urls (engine2 3))) (Vt (engine2 3))"
    and "length (Vt (engine2 3)) = length (Si (engine2 3))"
    by simp_all
  from unknown_query_projects_to_nan[OF u this]
  have "build_query_vector (engine2 3) [''bird'', ''fish''] = zeros (no_tags (engine2 3))"
    and "project (engine2 3) (build_query_vector (engine2 3) [''bird'', ''fish''])
           = Inr (replicate (length (Si (engine2 3))) NaN)"
    by blast+
  then show ?thesis by (simp add: zeros_def numeral_2_eq_2)
qed

text \<open>
  Claim C2 as stated fails: for the unknown key word the projection is a vector of
  \<open>nan\<close> and the search returns a ranking.
\<close>

theorem empty_query_counterexample:
  "SearchEngine svd0 inv_diag corpus0 2 3 = Inr (engine2 3)
   \<and> project (engine2 3) (build_query_vector (engine2 3) [''bird'']) = Inr [NaN, NaN]
   \<and> search (engine2 3) [''bird''] = Inr [''a'', ''b'', ''c'']"
proof -
  have b: "build_query_vector (engine2 3) [''bird''] = [Fin 0, Fin 0]"
    by (simp add: build_query_vector_def zeros_def numeral_2_eq_2)
  have p: "project (engine2 3) [Fin 0, Fin 0] = Inr [NaN, NaN]"
    by (simp add: project_def matvec_def fsum_def norm_np_def inf_of_sign_def)
  have d: "doc_dist (engine2 3) [NaN, NaN] 0 = Inr NaN"
    "doc_dist (engine2 3) [NaN, NaN] (Suc 0) = Inr NaN"
    "doc_dist (engine2 3) [NaN, NaN] (Suc (Suc 0)) = Inr NaN"
    "doc_dist (engine2 3) [NaN, NaN] (Suc (Suc (Suc 0))) = Inr NaN"
    "doc_dist (engine2 3) [NaN, NaN] (Suc (Suc (Suc (Suc 0)))) = Inr NaN"
    by (simp_all add: doc_dist_def column_def cosDist_def cos_arg_def dot_def fsum_def)
  have c: "cos_distances (engine2 3) [NaN, NaN]
             = Inr [(0, NaN), (1, NaN), (2, NaN), (3, NaN), (4, NaN)]"
    by (simp add: cos_distances_def d py_sort_key_def upt_unfold upt_rec[of 0])
  have "nearest_urls (engine2 3) [NaN, NaN] None = Inr [''a'', ''b'', ''c'']"
    by (simp add: nearest_urls_def c result_count_def py_slice_to_def)
  then show ?thesis by (simp add: engine2_built search_def b p)
qed

section \<open>The projected query\<close>

lemma build_query_vector_fold:
  assumes "distinct ts"
  shows "fold (\<lambda>key q. case index_of key ts of None \<Rightarrow> q
                       | Some i \<Rightarrow> if i < length q then q[i := Fin 1] else q) ks
           (map (\<lambda>t. if t \<in> K then Fin 1 else Fin 0) ts)
         = map (\<lambda>t. if t \<in> K \<union> set ks then Fin 1 else Fin 0) ts"
proof (induction ks arbitrary: K)
  case Nil
  show ?case by simp
next
  case (Cons k ks)
  let ?q = "map (\<lambda>t. if t \<in> K then Fin 1 else Fin 0) ts"
  let ?step = "case index_of k ts of None \<Rightarrow> ?q
                 | Some i \<Rightarrow> if i < length ?q then ?q[i := Fin 1] else ?q"
  have "?step = map (\<lambda>t. if t \<in> insert k K then Fin 1 else Fin 0) ts"
  proof (cases "index_of k ts")
    case None
    then have "k \<notin> set ts" by (simp add: index_of_None)
    then have "map (\<lambda>t. if t \<in> insert k K then Fin 1 else Fin 0) ts = ?q"
      by (auto cong: map_cong)
    with None show ?thesis by simp
  next
    case (Some i)
    from index_of_Some[OF Some] have i: "i < length ts" and k: "ts ! i = k" by simp_all
    have "?q[i := Fin 1] = map (\<lambda>t. if t \<in> insert k K then Fin 1 else Fin 0) ts"
    proof (rule nth_equalityI)
      show "length (?q[i := Fin 1]) = length (map (\<lambda>t. if t \<in> insert k K then Fin 1 else Fin 0) ts)"
        by simp
    next
      fix j assume "j < length (?q[i := Fin 1])"
      then have j: "j < length ts" by simp
      have "ts ! j = k \<longleftrightarrow> j = i"
        using assms i j k by (auto simp: nth_eq_iff_index_eq)
      then show "?q[i := Fin 1] ! j = map (\<lambda>t. if t \<in> insert k K then Fin 1 else Fin 0) ts ! j"
        using j i by (simp add: nth_list_update)
    qed
    with Some i show ?thesis by simp
  qed
  then show ?case using Cons.IH[of "insert k K"] by simp
qed

lemma build_query_vector_indicator:
  assumes "distinct (tags e)" "no_tags e = length (tags e)"
  shows "build_query_vector e key_words
           = map (\<lambda>t. if t \<in> set key_words then Fin 1 else Fin 0) (tags e)"
proof -
  have "zeros (no_tags e) = map (\<lambda>t. if t \<in> {} then Fin 1 else Fin 0) (tags e)"
    by (simp add: zeros_def assms(2) map_replicate_const)
  then show ?thesis
    using build_query_vector_fold[OF assms(1), of key_words "{}"]
    by (simp add: build_query_vector_def)
qed

lemma finite_vec_map_Fin: "finite_vec w \<Longrightarrow> \<exists>xs. w = map Fin xs"
proof (induction w)
  case Nil
  then show ?case by simp
next
  case (Cons x w)
  then obtain xs where "w = map Fin xs" by (auto simp: finite_vec_def)
  moreover from Cons.prems obtain a where "x = Fin a"
    by (cases x) (auto simp: finite_vec_def)
  ultimately have "x # w = map Fin (a # xs)" by simp
  then show ?case by (rule exI)
qed

lemma foldl_fadd_Fin: "foldl fadd (Fin a) (map Fin xs) = Fin (a + sum_list xs)"
  by (induction xs arbitrary: a) (simp_all add: add.assoc)

lemma fsum_Fin: "fsum (map Fin xs) = Fin (sum_list xs)"
  by (simp add: fsum_def foldl_fadd_Fin)

lemma sum_list_squares_nonneg: "0 \<le> sum_list (map (\<lambda>x. x * x) (xs :: real list))"
  by (induction xs) simp_all

lemma sum_list_squares_pos:
  "\<exists>x\<in>set xs. x \<noteq> 0 \<Longrightarrow> 0 < sum_list (map (\<lambda>x. x * x) (xs :: real list))"
proof (induction xs)
  case Nil
  then show ?case by simp
next
  case (Cons a xs)
  have n: "0 \<le> sum_list (map (\<lambda>x. x * x) xs)" by (rule sum_list_squares_nonneg)
  show ?case
  proof (cases "a = 0")
    case True
    with Cons show ?thesis by simp
  next
    case False
    then have "0 < a * a" by (cases "0 < a") (simp_all add: zero_less_mult_iff not_less)
    with n show ?thesis by simp
  qed
qed

lemma norm_np_Fin: "norm_np (map Fin xs) = Fin (sqrt (sum_list (map (\<lambda>x. x * x) xs)))"
proof -
  have "map (\<lambda>x. fmul x x) (map Fin xs) = map Fin (map (\<lambda>x. x * x) xs)" by simp
  then have "norm_np (map Fin xs) = fsqrt (Fin (sum_list (map (\<lambda>x. x * x) xs)))"
    by (simp only: norm_np_def fsum_Fin)
  then show ?thesis
    using sum_list_squares_nonneg[of xs] by simp
qed

lemma sum_list_scaled_squares:
  "sum_list (map (\<lambda>x. x * x) (map (\<lambda>x. x / r) xs))
     = sum_list (map (\<lambda>x. x * x) xs) / (r * r)" for r :: real
  by (induction xs) (simp_all add: add_divide_distrib)

lemma unit_normalization:
  assumes "list_ex (\<lambda>x. x \<noteq> Fin 0) (map Fin xs)"
  shows "norm_np (map (\<lambda>x. fdiv x (norm_np (map Fin xs))) (map Fin xs)) = Fin 1"
proof -
  let ?s = "sum_list (map (\<lambda>x. x * x) xs)"
  from assms have "\<exists>x\<in>set xs. x \<noteq> 0" by (auto simp: list_ex_iff)
  then have s: "0 < ?s" by (rule sum_list_squares_pos)
  then have r: "sqrt ?s \<noteq> 0" by simp
  have "map (\<lambda>x. fdiv x (norm_np (map Fin xs))) (map Fin xs)
          = map Fin (map (\<lambda>x. x / sqrt ?s) xs)"
    using r by (simp add: norm_np_Fin)
  then have "norm_np (map (\<lambda>x. fdiv x (norm_np (map Fin xs))) (map Fin xs))
          = Fin (sqrt (?s / (sqrt ?s * sqrt ?s)))"
    by (simp only: norm_np_Fin sum_list_scaled_squares)
  also have "sqrt ?s * sqrt ?s = ?s" using s by simp
  also have "?s / ?s = 1" using s by simp
  finally show ?thesis by simp
qed

text \<open>
  Claim C4, amended. For every list of key words the query vector has 1 at the
  positions of the tags among the key words and 0 elsewhere, key words that are no tag
  being ignored; \<open>project\<close> returns the product \<open>Si (Ut q)\<close> divided by its norm; and when
  that product is finite and not the zero vector, the projected query has norm 1.
\<close>

theorem projected_query_unit_norm:
  assumes tags: "distinct (tags e)" "no_tags e = length (tags e)"
    and v: "matvec (Ut e) (build_query_vector e key_words) = Inr v"
    and w: "matvec (Si e) v = Inr w"
    and fin: "finite_vec w"
    and nz: "list_ex (\<lambda>x. x \<noteq> Fin 0) w"
  shows "build_query_vector e key_words
           = map (\<lambda>t. if t \<in> set key_words then Fin 1 else Fin 0) (tags e)
         \<and> project e (build_query_vector e key_words) = Inr (map (\<lambda>x. fdiv x (norm_np w)) w)
         \<and> norm_np (map (\<lambda>x. fdiv x (norm_np w)) w) = Fin 1"
proof -
  from finite_vec_map_Fin[OF fin] obtain xs where xs: "w = map Fin xs" ..
  from nz have "norm_np (map (\<lambda>x. fdiv x (norm_np w)) w) = Fin 1"
    unfolding xs by (rule unit_normalization)
  moreover have "project e (build_query_vector e key_words) = Inr (map (\<lambda>x. fdiv x (norm_np w)) w)"
    by (simp add: project_def v w)
  ultimately show ?thesis using build_query_vector_indicator[OF tags] by simp
qed

theorem projected_query_unit_norm_witness:
  "build_query_vector (engine2 3) [''cat'', ''bird''] = [Fin 1, Fin 0]
   \<and> project (engine2 3) (build_query_vector (engine2 3) [''cat'', ''bird'']) = Inr [Fin 1, Fin 0]
   \<and> norm_np [Fin 1, Fin 0] = Fin 1"
proof -
  have b: "build_query_vector (engine2 3) [''cat'', ''bird''] = [Fin 1, Fin 0]"
    by (simp add: build_query_vector_def zeros_def numeral_2_eq_2)
  have t: "distinct (tags (engine2 3))" "no_tags (engine2 3) = length (tags (engine2 3))"
    by simp_all
  have v: "matvec (Ut (engine2 3)) (build_query_vector (engine2 3) [''cat'', ''bird''])
             = Inr [Fin 1, Fin 0]"
    by (simp add: b matvec_def fsum_def)
  have w: "matvec (Si (engine2 3)) [Fin 1, Fin 0] = Inr [Fin (1/2), Fin 0]"
    by (simp add: matvec_def fsum_def)
  have f: "finite_vec [Fin (1/2), Fin 0]" by (simp add: finite_vec_def)
  have n: "list_ex (\<lambda>x. x \<noteq> Fin 0) [Fin (1/2), Fin 0]" by simp
  have h: "norm_np [Fin (1/2), Fin 0] = Fin (1/2)"
    by (simp add: norm_np_def fsum_def real_sqrt_divide)
  from projected_query_unit_norm[OF t v w f n] show ?thesis
    by (simp add: b h)
qed

text \<open>
  Claim C4 as stated fails for a known key word: in the engine built from the small
  corpus with one component the tag \<open>dog\<close> projects to zero, and the projected query is
  \<open>nan\<close> and not of norm 1.
\<close>

theorem projected_query_unit_norm_counterexample:
  "SearchEngine svd0 inv_diag corpus0 1 3 = Inr (engine1 3)
   \<and> build_query_vector (engine1 3) [''dog''] = [Fin 0, Fin 1]
   \<and> project (engine1 3) (build_query_vector (engine1 3) [''dog'']) = Inr [NaN]
   \<and> norm_np [NaN] = NaN"
proof -
  have b: "build_query_vector (engine1 3) [''dog''] = [Fin 0, Fin 1]"
    by (simp add: build_query_vector_def zeros_def numeral_2_eq_2)
  have "project (engine1 3) [Fin 0, Fin 1] = Inr [NaN]"
    by (simp add: project_def matvec_def fsum_def norm_np_def inf_of_sign_def)
  then show ?thesis by (simp add: engine1_built b norm_np_def fsum_def)
qed

section \<open>The cosine distance\<close>








lemma zero_column_distance_nan: "doc_dist (engine1 3) [Fin 1] 4 = Inr NaN"
  by (simp add: doc_dist_def column_def cosDist_def cos_arg_def dot_def fsum_def norm_np_def
        inf_of_sign_def)

section \<open>The truncated decomposition\<close>

lemma diag_matrix_shaped: "shaped m n (diag_matrix s m n)"
  by (simp add: shaped_def diag_matrix_def list_all_iff)

lemma diag_matrix_nth:
  assumes "i < m" "j < n" "i < length s" "finite_vec s"
  shows "diag_matrix s m n ! i ! j = (if i = j then s ! i else Fin 0)"
proof -
  from assms(3) have ne: "s \<noteq> []" by auto
  from assms(3,4) obtain x where x: "s ! i = Fin x"
    by (cases "s ! i") (auto simp: finite_vec_def list_all_length)
  have "resize_col s m ! i = s ! i"
    using assms(1,3) ne by (simp add: resize_col_def)
  with x have "resize_col s m ! i = Fin x" by simp
  then have "diag_matrix s m n ! i ! j = (if i = j then Fin x else Fin 0)"
    using assms(1,2) by (simp add: diag_matrix_def)
  then show ?thesis by (simp only: x)
qed

lemma shaped_take_rows: "shaped m n M \<Longrightarrow> k \<le> m \<Longrightarrow> shaped k n (take k M)"
  by (auto simp: shaped_def list_all_iff dest: in_set_takeD)

lemma shaped_take_cols: "shaped m n M \<Longrightarrow> k \<le> n \<Longrightarrow> shaped m k (map (take k) M)"
  by (auto simp: shaped_def list_all_iff)

lemma truncatedSVD_total:
  "svd A = Inr (U0, s, Vt0) \<Longrightarrow> \<exists>r. truncatedSVD svd A k = Inr r"
  by (simp add: truncatedSVD_def Let_def)

text \<open>
  Claim C9, amended. \<open>truncatedSVD\<close> checks no rank: whenever \<open>svd\<close> returns, it returns
  for every integer \<open>k\<close>. When \<open>svd\<close> returns factors of the shapes that numpy gives
  (a square \<open>U\<close>, \<open>min terms documents\<close> finite singular values in descending order, a
  square \<open>Vt\<close>) and \<open>1 \<le> k \<le> min terms documents\<close>, the result is the first \<open>k\<close>
  columns of \<open>U\<close>, a \<open>k\<close> by \<open>k\<close> diagonal matrix of the first \<open>k\<close> singular values, in
  descending order, and the first \<open>k\<close> rows of \<open>Vt\<close>.
\<close>

theorem truncatedSVD_in_range:
  assumes svd: "svd A = Inr (U0, s, Vt0)"
    and su: "shaped (length A) (length A) U0"
    and ls: "length s = min (length A) (ncols A)"
    and sv: "shaped (ncols A) (ncols A) Vt0"
    and fin: "finite_vec s" and desc: "descending s"
    and k1: "1 \<le> k" and k2: "k \<le> int (min (length A) (ncols A))"
  shows "(\<forall>k'. \<exists>r. truncatedSVD svd A k' = Inr r)
         \<and> (\<exists>Uk Sk Vtk. truncatedSVD svd A k = Inr (Uk, Sk, Vtk)
               \<and> shaped (length A) (nat k) Uk \<and> Uk = map (take (nat k)) U0
               \<and> shaped (nat k) (nat k) Sk
               \<and> (\<forall>i<nat k. \<forall>j<nat k. Sk ! i ! j = (if i = j then s ! i else Fin 0))
               \<and> descending (take (nat k) s)
               \<and> shaped (nat k) (ncols A) Vtk \<and> Vtk = take (nat k) Vt0)"
proof -
  let ?m = "length A" and ?n = "ncols A" and ?k = "nat k"
  let ?S0 = "diag_matrix s ?m ?n"
  let ?Uk = "map (take ?k) U0" and ?Sk = "map (take ?k) (take ?k ?S0)" and ?Vtk = "take ?k Vt0"
  from k1 k2 have km: "?k \<le> ?m" and kn: "?k \<le> ?n" and k0: "0 \<le> k" by simp_all
  have t: "truncatedSVD svd A k = Inr (?Uk, ?Sk, ?Vtk)"
    using k0 by (simp add: truncatedSVD_def svd Let_def py_slice_to_def)
  have 1: "shaped ?m ?k ?Uk" by (rule shaped_take_cols[OF su km])
  have "shaped ?k ?n (take ?k ?S0)" by (rule shaped_take_rows[OF diag_matrix_shaped km])
  then have 2: "shaped ?k ?k ?Sk" using kn by (rule shaped_take_cols)
  have 3: "?Sk ! i ! j = (if i = j then s ! i else Fin 0)" if "i < ?k" "j < ?k" for i j
  proof -
    from that km kn have im: "i < ?m" and jn: "j < ?n" by simp_all
    from that(1) km kn ls have il: "i < length s" by simp
    have "?Sk ! i ! j = ?S0 ! i ! j"
      using that im jn diag_matrix_shaped[of ?m ?n s]
      by (simp add: shaped_def list_all_length)
    then show ?thesis by (simp only: diag_matrix_nth[OF im jn il fin])
  qed
  have 4: "descending (take ?k s)"
    using desc unfolding descending_def by (rule sorted_wrt_take)
  have 5: "shaped ?k ?n ?Vtk" by (rule shaped_take_rows[OF sv kn])
  have "\<forall>k'. \<exists>r. truncatedSVD svd A k' = Inr r"
    using truncatedSVD_total[of svd A, OF svd] by blast
  with t 1 2 3 4 5 show ?thesis by blast
qed

theorem truncatedSVD_in_range_witness:
  "truncatedSVD svd0 [[Fin 1, Fin 1, Fin 1, Fin 1, Fin 0], [Fin 0, Fin 0, Fin 0, Fin 0, Fin 1]] 2
     = Inr ([[Fin 1, Fin 0], [Fin 0, Fin 1]], [[Fin 2, Fin 0], [Fin 0, Fin 1]],
            [[Fin (1/2), Fin (1/2), Fin (1/2), Fin (1/2), Fin 0],
             [Fin 0, Fin 0, Fin 0, Fin 0, Fin 1]])
   \<and> descending (take (nat 2) [Fin 2, Fin 1])"
proof -
  let ?A = "[[Fin 1, Fin 1, Fin 1, Fin 1, Fin 0], [Fin 0, Fin 0, Fin 0, Fin 0, Fin 1]]"
  let ?U = "[[Fin 1, Fin 0], [Fin 0, Fin 1]]" and ?s = "[Fin 2, Fin 1]"
  let ?V = "[[Fin (1/2), Fin (1/2), Fin (1/2), Fin (1/2), Fin 0],
      [Fin 0, Fin 0, Fin 0, Fin 0, Fin 1],
      [Fin (1/2), Fin (- 1/2), Fin (1/2), Fin (- 1/2), Fin 0],
      [Fin (1/2), Fin (1/2), Fin (- 1/2), Fin (- 1/2), Fin 0],
      [Fin (1/2), Fin (- 1/2), Fin (- 1/2), Fin (1/2), Fin 0]]"
  have 0: "svd0 ?A = Inr (?U, ?s, ?V)" by (rule svd0_def)
  have 1: "shaped (length ?A) (length ?A) ?U" by (simp add: shaped_def)
  have 2: "length ?s = min (length ?A) (ncols ?A)" by (simp add: ncols_def)
  have 3: "shaped (ncols ?A) (ncols ?A) ?V" by (simp add: shaped_def ncols_def)
  have 4: "finite_vec ?s" by (simp add: finite_vec_def)
  have 5: "descending ?s" by (simp add: descending_def)
  have 6: "(1::int) \<le> 2" by simp
  have 7: "2 \<le> int (min (length ?A) (ncols ?A))" by (simp add: ncols_def)
  from truncatedSVD_in_range[of svd0 ?A, OF 0 1 2 3 4 5 6 7]
  have "descending (take (nat 2) ?s)" by blast
  then show ?thesis by (simp add: truncatedSVD_corpus0_2)
qed

text \<open>
  Claim C9 as stated fails for the rank 0: the three slices are empty and nothing is
  raised.
\<close>

theorem invalid_rank_counterexample:
  "truncatedSVD svd0 [[Fin 1, Fin 1, Fin 1, Fin 1, Fin 0], [Fin 0, Fin 0, Fin 0, Fin 0, Fin 1]] 0
     = Inr ([[], []], [], [])"
  by (simp add: truncatedSVD_def svd0_def py_slice_to_def Let_def)

end
